theory Spec2Isabelle
  imports
    Main
    "HOL-Library.Multiset"
    "HOL-Library.Char_ord"
    "HOL-Library.List_Lexorder"
begin

section \<open>Values and strings of the host language\<close>

text \<open>
  File sizes, byte offsets, HTTP status codes and the write counter are JavaScript numbers
  holding integers far below \<open>2^53\<close>; they are modelled as \<open>int\<close>.  Strings are
  \<open>string\<close>; the default \<open>Array.prototype.sort\<close> compares strings code unit by code unit,
  which is the lexicographic order of \<open>HOL-Library.List_Lexorder\<close> over \<open>Char_ord\<close>.
\<close>

definition digit_char :: "nat \<Rightarrow> char" where
  "digit_char d = char_of (48 + d)"

function natToString :: "nat \<Rightarrow> string" where
  "natToString n =
     (if n < 10 then [digit_char n] else natToString (n div 10) @ [digit_char (n mod 10)])"
  by pat_completeness auto
termination
  by (relation "measure id") auto

declare natToString.simps [simp del]

text \<open>\<open>String(n)\<close> and \<open>"" + n\<close> for an integral number \<open>n\<close>.\<close>

definition numToString :: "int \<Rightarrow> string" where
  "numToString n = (if n < 0 then CHR ''-'' # natToString (nat (- n)) else natToString (nat n))"

text \<open>\<open>xs.join(sep)\<close> on an array of strings.\<close>

fun join :: "string \<Rightarrow> string list \<Rightarrow> string" where
  "join sep [] = []"
| "join sep [x] = x"
| "join sep (x # y # ys) = x @ sep @ join sep (y # ys)"

text \<open>
  \<open>s.lastIndexOf(c)\<close>: the greatest index holding \<open>c\<close>, or \<open>-1\<close>;
  \<open>s.substring(a)\<close> and \<open>s.substring(0, b)\<close>, where a negative bound counts as \<open>0\<close>.
\<close>

definition lastIndexOf :: "char \<Rightarrow> string \<Rightarrow> int" where
  "lastIndexOf c s =
     (case filter (\<lambda>i. s ! i = c) (rev [0..<length s]) of [] \<Rightarrow> - 1 | i # _ \<Rightarrow> int i)"

definition substringFrom :: "string \<Rightarrow> int \<Rightarrow> string" where
  "substringFrom s a = drop (nat a) s"

definition substringTo :: "string \<Rightarrow> int \<Rightarrow> string" where
  "substringTo s b = take (nat b) s"

text \<open>
  The values an upload option can hold.  \<open>joinElem\<close> is the conversion
  \<open>Array.prototype.join\<close> applies to one element: \<open>null\<close> and \<open>undefined\<close> give the empty
  string, an array is joined with commas in turn, a plain object gives \<open>[object Object]\<close>.
\<close>

datatype jsval =
    JStr string
  | JNum int
  | JBool bool
  | JNull
  | JUndefined
  | JArr "jsval list"
  | JObject

fun joinElem :: "jsval \<Rightarrow> string" where
  "joinElem (JStr s) = s"
| "joinElem (JNum n) = numToString n"
| "joinElem (JBool b) = (if b then ''true'' else ''false'')"
| "joinElem JNull = []"
| "joinElem JUndefined = []"
| "joinElem (JArr vs) = join '','' (map joinElem vs)"
| "joinElem JObject = ''[object Object]''"

section \<open>The error classes (src/errors)\<close>

text \<open>
  \<open>FileOpenError\<close> and \<open>FileUploadError\<close> extend \<open>FileError\<close> (message, pathname);
  \<open>ServerResponseError\<close> extends \<open>FileUploadError\<close> with \<open>httpCode\<close>.  \<open>TypeError\<close> and
  \<open>ReferenceError\<close> are the runtime's own errors and \<open>SystemError\<close> stands for the errors
  of the file system calls; they are instances of none of the classes above.
\<close>

datatype error =
    FileOpenError string string
  | FileUploadError string string
  | ServerResponseError string string int
  | TypeError string
  | ReferenceError string
  | SystemError string

fun toString :: "error \<Rightarrow> string" where
  "toString (FileOpenError message pathname) =
     ''Failed to open \"'' @ pathname @ ''\": '' @ message"
| "toString (FileUploadError message pathname) =
     ''Failed to upload \"'' @ pathname @ ''\": '' @ message"
| "toString (ServerResponseError message pathname httpCode) =
     ''Failed to upload \"'' @ pathname @ ''\": '' @ message"
| "toString (TypeError message) = ''TypeError: '' @ message"
| "toString (ReferenceError message) = ''ReferenceError: '' @ message"
| "toString (SystemError message) = ''Error: '' @ message"

section \<open>Error escalation: \<open>CloudinaryUploader.#isCriticalError\<close>\<close>

definition BAD_REQUEST :: int where "BAD_REQUEST = 400"
definition NOT_FOUND :: int where "NOT_FOUND = 404"
definition CONFLICT :: int where "CONFLICT = 409"

fun isCriticalError :: "error \<Rightarrow> bool" where
  "isCriticalError (FileOpenError message pathname) = False"
| "isCriticalError (ServerResponseError message pathname httpCode) =
     (if httpCode = BAD_REQUEST \<or> httpCode = NOT_FOUND \<or> httpCode = CONFLICT
      then False else True)"
| "isCriticalError error = True"

section \<open>Signing: \<open>Uploader.generateSignature\<close>\<close>

text \<open>
  \<open>optionalParams\<close> is the list \<open>Object.entries\<close> returns, in the object's own key order.
  The filter tests \<open>String([k, v]).length > 0\<close>; \<open>String\<close> of the pair is
  \<open>k + "," + joinElem v\<close>.  The SHA-256 digest of the \<open>crypto\<close> module is the parameter
  \<open>sha256\<close>.
\<close>

definition paramsToSign :: "(string \<times> jsval) list \<Rightarrow> string" where
  "paramsToSign optionalParams =
     join ''&''
       (sort
         (map (\<lambda>(k, v). k @ ''='' @ join '','' [joinElem v])
           (filter (\<lambda>p. length (fst p @ '','' @ joinElem (snd p)) > 0) optionalParams)))"

definition generateSignature ::
  "(string \<Rightarrow> string) \<Rightarrow> string \<Rightarrow> (string \<times> jsval) list \<Rightarrow> string" where
  "generateSignature sha256 apiSecret optionalParams =
     sha256 (paramsToSign optionalParams @ apiSecret)"

section \<open>Chunked transfer: \<open>Uploader.chunkUpload\<close>\<close>

text \<open>
  The promise executor installs handlers on a read stream and returns; everything else
  happens in the handlers, which share \<open>start\<close>, \<open>end\<close>, \<open>fileSize\<close> and the promise.
  One value of \<open>chunk_upload\<close> is that shared state; \<open>requests\<close> lists the POSTs issued so
  far and \<open>inflight\<close> counts those not yet answered.  \<open>settled\<close> is the promise: the first
  \<open>resolve\<close> or \<open>reject\<close> fixes it, later calls change nothing.

  The events are what the runtime delivers: the stream's \<open>error\<close>, the size that
  \<open>await stat(url)\<close> hands to the \<open>open\<close> handler, a \<open>data\<close> chunk of some byte length,
  and the fulfilment or rejection of a pending \<open>axios.post\<close> (a rejection carries
  \<open>error.response.status\<close> when the server answered).  The \<open>data\<close> handler runs up to its
  \<open>await\<close> without interruption, so the offsets, the header and the POST of one chunk are
  one step.  The \<open>open\<close> handler assigns \<open>fileSize\<close> only after its \<open>await\<close>, and the stream
  does not wait for it: a \<open>data\<close> event may come before or after the size.  The stream is opened with \<open>highWaterMark: CHUNK_UPLOAD_SIZE\<close>, so a chunk has at
  most that many bytes; the model accepts a \<open>data\<close> event of any length.  An answer that
  arrives while no POST is in flight cannot happen and leaves the state as it is.
\<close>

definition CHUNK_UPLOAD_SIZE :: nat where
  "CHUNK_UPLOAD_SIZE = 5000000"

record request =
  range_start :: int
  range_end :: int
  content_range :: string

datatype outcome = Resolved string | Rejected error

record chunk_upload =
  start :: int
  end' :: int
  fileSize :: int
  requests :: "request list"
  inflight :: nat
  settled :: "outcome option"

datatype stream_event =
    OnError string
  | OnOpenStat int
  | OnData nat
  | PostResolved string
  | PostRejected string "int option"

definition settle :: "outcome \<Rightarrow> chunk_upload \<Rightarrow> chunk_upload" where
  "settle out s = (case settled s of None \<Rightarrow> s\<lparr>settled := Some out\<rparr> | Some _ \<Rightarrow> s)"

definition byteHeaderRange :: "int \<Rightarrow> int \<Rightarrow> int \<Rightarrow> string" where
  "byteHeaderRange st en fsize =
     ''bytes '' @ numToString st @ ''-'' @ numToString (en - 1) @ ''/'' @ numToString fsize"

fun on_event :: "string \<Rightarrow> stream_event \<Rightarrow> chunk_upload \<Rightarrow> chunk_upload" where
  "on_event url (OnError message) s = settle (Rejected (FileOpenError message url)) s"
| "on_event url (OnOpenStat bytes) s = s\<lparr>fileSize := bytes\<rparr>"
| "on_event url (OnData byteLength) s =
     (let st = end' s; en = end' s + int byteLength
      in s\<lparr>start := st, end' := en,
            requests := requests s @
              [\<lparr>range_start = st, range_end = en,
                content_range = byteHeaderRange st en (fileSize s)\<rparr>],
            inflight := Suc (inflight s)\<rparr>)"
| "on_event url (PostResolved response) s =
     (if inflight s = 0 then s
      else let s1 = s\<lparr>inflight := inflight s - 1\<rparr>
           in if end' s1 \<ge> fileSize s1 then settle (Resolved response) s1 else s1)"
| "on_event url (PostRejected message status) s =
     (if inflight s = 0 then s
      else let s1 = s\<lparr>inflight := inflight s - 1\<rparr>
           in case status of
                Some httpCode \<Rightarrow>
                  settle (Rejected (FileUploadError message url))
                    (settle (Rejected (ServerResponseError message url httpCode)) s1)
              | None \<Rightarrow> settle (Rejected (FileUploadError message url)) s1)"

definition chunkUpload :: "string \<Rightarrow> stream_event list \<Rightarrow> chunk_upload" where
  "chunkUpload url events =
     foldl (\<lambda>s e. on_event url e s)
       \<lparr>start = 0, end' = 0, fileSize = 0, requests = [], inflight = 0, settled = None\<rparr>
       events"

text \<open>The byte lengths of the chunks a run of events delivers, and whether the run delivers
  no file size.\<close>

fun chunk_lengths :: "stream_event list \<Rightarrow> nat list" where
  "chunk_lengths [] = []"
| "chunk_lengths (OnData n # es) = n # chunk_lengths es"
| "chunk_lengths (e # es) = chunk_lengths es"

fun stat_free :: "stream_event list \<Rightarrow> bool" where
  "stat_free [] = True"
| "stat_free (OnOpenStat n # es) = False"
| "stat_free (e # es) = stat_free es"


text \<open>The events by which the stream delivers something: a chunk or an error.\<close>

fun delivers :: "stream_event \<Rightarrow> bool" where
  "delivers (OnData byteLength) = True"
| "delivers (OnError message) = True"
| "delivers e = False"

text \<open>
  The requests expected for chunks of lengths \<open>ls\<close> when \<open>end\<close> is \<open>e\<close>, and the offset of
  chunk \<open>i\<close>: the sum of the lengths before it.  Both serve the proofs only.
\<close>

fun new_requests :: "int \<Rightarrow> int \<Rightarrow> nat list \<Rightarrow> request list" where
  "new_requests fsize e [] = []"
| "new_requests fsize e (l # ls) =
     \<lparr>range_start = e, range_end = e + int l,
      content_range = byteHeaderRange e (e + int l) fsize\<rparr>
     # new_requests fsize (e + int l) ls"

definition offset :: "nat list \<Rightarrow> nat \<Rightarrow> int" where
  "offset ls i = sum_list (map int (take i ls))"

section \<open>The worker pool: \<open>Uploader.bulkUpload\<close>\<close>













section \<open>Client-side validation: \<open>ImageValidator\<close>\<close>

text \<open>
  \<open>magicNumTable\<close> with its four aliases added.  \<open>readHeader filename n\<close> is the file system:
  what \<open>createReadStream(filename, {end: n - 1, encoding: 'hex'})\<close> delivers, the first \<open>n\<close>
  bytes in hexadecimal (\<open>Inr\<close>) or the message of the stream's \<open>error\<close> event (\<open>Inl\<close>).
  \<open>localeCompare\<close> with sensitivity \<open>accent\<close> gives 0 for strings that are equal up to
  letter case; on the hexadecimal digits compared here that is \<open>sameIgnoringCase\<close>.
  \<open>allowableTypes.includes(ext)\<close> is false for an extension that is \<open>null\<close>.
\<close>

datatype verdict = NOT_ALLOWED | VALID | INVALID

definition magicNumTable :: "(string \<times> string list) list" where
  "magicNumTable =
     [(''bmp'', [''424d'']),
      (''png'', [''89504e47'']),
      (''gif'', [''474946383761'', ''474946383961'']),
      (''jpg'', [''ffd8ff'']),
      (''tif'', [''49492a00'', ''4d4d002a'', ''4d4d002b'']),
      (''ico'', [''00000100'']),
      (''dib'', [''424d'']),
      (''jpeg'', [''ffd8ff'']),
      (''jpe'', [''ffd8ff'']),
      (''tiff'', [''49492a00'', ''4d4d002a'', ''4d4d002b''])]"

definition getFileExtension :: "string \<Rightarrow> string option" where
  "getFileExtension filename =
     (let extPos = lastIndexOf CHR ''.'' filename
      in if extPos = - 1 then None
         else (let ext = substringFrom filename (extPos + 1)
               in if ext = [] then None else Some ext))"

definition toLowerAscii :: "char \<Rightarrow> char" where
  "toLowerAscii c =
     (if CHR ''A'' \<le> c \<and> c \<le> CHR ''Z'' then char_of (of_char c + (32::nat)) else c)"

definition sameIgnoringCase :: "string \<Rightarrow> string \<Rightarrow> bool" where
  "sameIgnoringCase a b = (map toLowerAscii a = map toLowerAscii b)"

definition isValidImage ::
  "string list \<Rightarrow> (string \<Rightarrow> nat \<Rightarrow> string + string) \<Rightarrow> string \<Rightarrow> error + verdict" where
  "isValidImage allowableTypes readHeader filename =
     (let ext = getFileExtension filename
      in if length allowableTypes > 0 \<and> ext \<notin> set (map Some allowableTypes)
         then Inr NOT_ALLOWED
         else
           (case (case ext of None \<Rightarrow> None | Some x \<Rightarrow> map_of magicNumTable x) of
              None \<Rightarrow> Inr VALID
            | Some magicNums \<Rightarrow>
                (case magicNums of
                   [] \<Rightarrow> Inl (TypeError ''Cannot read properties of undefined (reading 'length')'')
                 | first # _ \<Rightarrow>
                     (let numChars = length first
                      in case readHeader filename (numChars div 2) of
                           Inl message \<Rightarrow> Inl (FileOpenError message filename)
                         | Inr fileHeader \<Rightarrow>
                             if list_ex (\<lambda>magicNum. sameIgnoringCase magicNum fileHeader) magicNums
                             then Inr VALID else Inr INVALID))))"

section \<open>Existence check: \<open>Uploader.checkExists\<close>\<close>

text \<open>
  \<open>headOk url\<close> tells whether \<open>axios.head(url)\<close> is fulfilled.  A \<open>folder\<close> that is \<open>null\<close>
  passes the filter (\<open>String(null)\<close> has four characters) and is joined as the empty string.
\<close>

record checkOptions =
  folder :: "string option"
  format :: "string option"

definition checkExists ::
  "string \<Rightarrow> (string \<Rightarrow> bool) \<Rightarrow> string \<Rightarrow> checkOptions \<Rightarrow> bool" where
  "checkExists cloudName headOk filename options =
     (let nameToCheck =
            (case format options of
               Some fmt \<Rightarrow> substringTo filename (lastIndexOf CHR ''.'' filename + 1) @ fmt
             | None \<Rightarrow> filename);
          url = join ''/''
                  (map (\<lambda>val. case val of None \<Rightarrow> [] | Some x \<Rightarrow> x)
                    (filter (\<lambda>val. length (case val of None \<Rightarrow> ''null'' | Some x \<Rightarrow> x) > 0)
                      [Some ''https://res.cloudinary.com'', Some cloudName,
                       Some ''image/upload'', folder options, Some nameToCheck]))
      in headOk url)"

section \<open>The coordinator: \<open>CloudinaryUploader.upload\<close>\<close>

text \<open>
  The filter predicate passes \<open>{...apiOptions}\<close> to \<open>checkExists\<close>.  The module declares
  no \<open>apiOptions\<close>: it is no parameter of \<open>upload\<close>, no local or module constant, no
  import and no global of the runtime.  Evaluating the identifier throws a
  \<open>ReferenceError\<close> before \<open>checkExists\<close> is called.
\<close>

definition apiOptions :: "error + checkOptions" where
  "apiOptions = Inl (ReferenceError ''apiOptions is not defined'')"

text \<open>
  The events emitted on the uploader (with the path, and a message, an error object or the
  server's response), the options of a batch, and the world outside: the file headers,
  the answers of the storage server, and whether \<open>open(errorFilename, ...)\<close> succeeds.
  \<open>errorFileHandle\<close> is a handle exactly when \<open>errorFilename\<close> is a string.

  \<open>batch\<close> is the state one call of \<open>upload\<close> shares among its callbacks: the events emitted
  so far, \<open>writeCount\<close>, the \<open>appendFile\<close> calls in flight (\<open>pending\<close>), fulfilled (\<open>written\<close>:
  what is in the log file) and rejected (\<open>failed\<close>), the history \<open>enqueued\<close> of every message
  handed to \<open>appendFile\<close>, \<open>uploadController.signal.aborted\<close>, the array \<open>filterArr\<close> of
  \<open>asyncFilter\<close>, and where \<open>upload\<close> stands: filtering, awaiting \<open>bulkUpload\<close>, waiting for
  the end-of-write event, about to close the error file, returned (\<open>Closed\<close>), or rejected
  with an error (\<open>Threw\<close>).
\<close>

datatype detail = Message string | ErrorObject error

datatype notification =
    UPLOAD_SUCCESS string "string option"
  | UPLOAD_ERROR string detail
  | UPLOAD_CRITICAL string detail
  | END_WRITE

datatype phase = Filtering | Uploading | Waiting | Closing | Closed | Threw error

record config =
  cloudName :: string
  imgDir :: string
  errorFilename :: "string option"
  lineSep :: string
  ignoreFileExistCheck :: bool
  allowedFileTypes :: "string list"

record world =
  readHeader :: "string \<Rightarrow> nat \<Rightarrow> string + string"
  headOk :: "string \<Rightarrow> bool"
  openResult :: "error + unit"

record batch =
  emitted :: "notification list"
  writeCount :: int
  pending :: "string list"
  written :: "string list"
  failed :: "string list"
  enqueued :: "string list"
  controller_aborted :: bool
  filterArr :: "string list"
  phase :: phase

text \<open>
  \<open>this.emit\<close>.  The only listener the coordinator itself registers is the \<open>once\<close> listener
  for the end-of-write event, registered while \<open>upload\<close> waits; it resolves the promise
  \<open>upload\<close> awaits before closing.
\<close>

definition emit :: "notification \<Rightarrow> batch \<Rightarrow> batch" where
  "emit n s =
     (let s1 = s\<lparr>emitted := emitted s @ [n]\<rparr>
      in if n = END_WRITE \<and> phase s1 = Waiting then s1\<lparr>phase := Closing\<rparr> else s1)"

text \<open>
  \<open>logError\<close> up to its \<open>await\<close>: the counter is incremented, then \<open>appendFile\<close> is called
  on the handle.  Without a handle \<open>errorFileHandle?.appendFile(...)\<close> is \<open>undefined\<close>, the
  parentheses end the optional chain, and \<open>.then\<close> on \<open>undefined\<close> throws a \<open>TypeError\<close>:
  the promise of \<open>logError\<close> is rejected and the counter stays incremented.
  \<open>appendFulfilled\<close> is the \<open>then\<close> handler of the \<open>i\<close>-th append in flight;
  \<open>appendRejected\<close> is its rejection, which skips the handler and rejects the promise of
  \<open>logError\<close> (during filtering that rejects the predicate, \<open>asyncFilter\<close> and \<open>upload\<close>).
\<close>

definition logError :: "config \<Rightarrow> string \<Rightarrow> batch \<Rightarrow> (error + unit) \<times> batch" where
  "logError cfg msg s =
     (let s1 = s\<lparr>writeCount := writeCount s + 1\<rparr>
      in case errorFilename cfg of
           None \<Rightarrow> (Inl (TypeError ''Cannot read properties of undefined (reading 'then')''), s1)
         | Some _ \<Rightarrow> (Inr (), s1\<lparr>pending := pending s1 @ [msg], enqueued := enqueued s1 @ [msg]\<rparr>))"

definition appendFulfilled :: "nat \<Rightarrow> batch \<Rightarrow> batch" where
  "appendFulfilled i s =
     (if i < length (pending s) then
        (let s1 = s\<lparr>pending := take i (pending s) @ drop (Suc i) (pending s),
                    written := written s @ [pending s ! i],
                    writeCount := writeCount s - 1\<rparr>
         in if writeCount s1 = 0 then emit END_WRITE s1 else s1)
      else s)"

definition appendRejected :: "nat \<Rightarrow> string \<Rightarrow> batch \<Rightarrow> batch" where
  "appendRejected i message s =
     (if i < length (pending s) then
        (let s1 = s\<lparr>pending := take i (pending s) @ drop (Suc i) (pending s),
                    failed := failed s @ [pending s ! i]\<rparr>
         in if phase s1 = Filtering then s1\<lparr>phase := Threw (SystemError message)\<rparr> else s1)
      else s)"

text \<open>
  The predicate given to \<open>asyncFilter\<close>, for the file \<open>f\<close>.  The result is the error the
  predicate throws, or the boolean it returns once the append it awaits is fulfilled; the
  state carries what it emitted and handed to \<open>logError\<close>.  When \<open>isValidImage\<close> rejects,
  the \<open>catch\<close> handler runs and \<open>imgRes\<close> is \<open>undefined\<close>, which is neither \<open>INVALID\<close> nor
  \<open>VALID\<close>.
\<close>

definition filter_predicate ::
  "config \<Rightarrow> world \<Rightarrow> string \<Rightarrow> batch \<Rightarrow> (error + bool) \<times> batch" where
  "filter_predicate cfg env f s =
     (let pathname = imgDir cfg @ f
      in case isValidImage (allowedFileTypes cfg) (readHeader env) pathname of
           Inl error \<Rightarrow>
             (case logError cfg (toString error @ lineSep cfg)
                     (emit (UPLOAD_ERROR pathname (Message (toString error))) s) of
                (Inl e, s2) \<Rightarrow> (Inl e, s2)
              | (Inr _, s2) \<Rightarrow> (Inr False, s2))
         | Inr imgRes \<Rightarrow>
             (case (if imgRes = INVALID
                    then (let errorMsg = ''Failed to upload \"'' @ pathname @ ''\": file is invalid.''
                          in logError cfg (errorMsg @ lineSep cfg)
                               (emit (UPLOAD_ERROR pathname (Message errorMsg)) s))
                    else (Inr (), s)) of
                (Inl e, s2) \<Rightarrow> (Inl e, s2)
              | (Inr _, s2) \<Rightarrow>
                  if imgRes = VALID then
                    (if ignoreFileExistCheck cfg then (Inr True, s2)
                     else (case apiOptions of
                             Inl e \<Rightarrow> (Inl e, s2)
                           | Inr options \<Rightarrow>
                               (Inr (\<not> checkExists (cloudName cfg) (headOk env) f options), s2)))
                  else (Inr False, s2)))"

text \<open>
  The callback given to \<open>bulkUpload\<close>.  \<open>error\<close> is \<open>None\<close> for \<open>null\<close>.
\<close>

definition callback ::
  "config \<Rightarrow> string \<Rightarrow> string option \<Rightarrow> error option \<Rightarrow> batch \<Rightarrow> (error + unit) \<times> batch" where
  "callback cfg fileURL response error s =
     (case error of
        Some err \<Rightarrow>
          if \<not> controller_aborted s then
            (if isCriticalError err then
               logError cfg (''Aborting upload process due to critical error: '' @ toString err)
                 (emit (UPLOAD_CRITICAL fileURL (ErrorObject err)) (s\<lparr>controller_aborted := True\<rparr>))
             else
               logError cfg (toString err @ lineSep cfg)
                 (emit (UPLOAD_ERROR fileURL (ErrorObject err)) s))
          else (Inr (), emit (UPLOAD_SUCCESS fileURL response) s)
      | None \<Rightarrow> (Inr (), emit (UPLOAD_SUCCESS fileURL response) s))"

text \<open>
  What happens during one call of \<open>upload\<close>, one event at a time: the predicate runs for a
  file; an append in flight is fulfilled or rejected; \<open>asyncFilter\<close> is fulfilled and
  \<open>bulkUpload\<close> starts; \<open>bulkUpload\<close> calls the callback; \<open>bulkUpload\<close> is fulfilled and the
  \<open>then\<close> handler tests \<open>writeCount > 0\<close>; the error file is closed and \<open>upload\<close> returns.
  An event that cannot happen in the current phase leaves the state as it is.  A predicate
  whose file is kept pushes it to \<open>filterArr\<close> in the same step.  After \<open>upload\<close> has
  rejected during filtering, the other predicates still run.  Nobody handles a rejected
  promise of the callback, so only its effects on the state remain.

  The model is one call of \<open>upload\<close> on an uploader on which no other call is running.
  It allows every order of the events, also orders the runtime excludes (the filter
  settling while a predicate still awaits its append, say): what holds for all runs of
  the model holds for all runs of the code.
\<close>

datatype upload_event =
    PredicateRuns string
  | AppendFulfilled nat
  | AppendRejected nat string
  | FilterSettled
  | CallbackRuns string "string option" "error option"
  | PoolSettled
  | CloseFile

fun upload_step :: "config \<Rightarrow> world \<Rightarrow> upload_event \<Rightarrow> batch \<Rightarrow> batch" where
  "upload_step cfg env (PredicateRuns f) s =
     (case phase s of
        Filtering \<Rightarrow>
          (case filter_predicate cfg env f s of
             (Inl e, s1) \<Rightarrow> s1\<lparr>phase := Threw e\<rparr>
           | (Inr keep, s1) \<Rightarrow> if keep then s1\<lparr>filterArr := filterArr s1 @ [f]\<rparr> else s1)
      | Threw e \<Rightarrow> (snd (filter_predicate cfg env f s))\<lparr>phase := Threw e\<rparr>
      | _ \<Rightarrow> s)"
| "upload_step cfg env (AppendFulfilled i) s = appendFulfilled i s"
| "upload_step cfg env (AppendRejected i message) s = appendRejected i message s"
| "upload_step cfg env FilterSettled s =
     (if phase s = Filtering then s\<lparr>phase := Uploading\<rparr> else s)"
| "upload_step cfg env (CallbackRuns fileURL response error) s =
     (if phase s = Uploading then snd (callback cfg fileURL response error s) else s)"
| "upload_step cfg env PoolSettled s =
     (if phase s = Uploading
      then (if writeCount s > 0 then s\<lparr>phase := Waiting\<rparr> else s\<lparr>phase := Closing\<rparr>)
      else s)"
| "upload_step cfg env CloseFile s =
     (if phase s = Closing then s\<lparr>phase := Closed\<rparr> else s)"

definition upload_start :: "config \<Rightarrow> world \<Rightarrow> batch" where
  "upload_start cfg env =
     (let s0 = \<lparr>emitted = [], writeCount = 0, pending = [], written = [], failed = [],
                enqueued = [], controller_aborted = False, filterArr = [], phase = Filtering\<rparr>
      in case errorFilename cfg of
           None \<Rightarrow> s0
         | Some _ \<Rightarrow> (case openResult env of Inl e \<Rightarrow> s0\<lparr>phase := Threw e\<rparr> | Inr _ \<Rightarrow> s0))"

definition upload :: "config \<Rightarrow> world \<Rightarrow> upload_event list \<Rightarrow> batch" where
  "upload cfg env events = foldl (\<lambda>s e. upload_step cfg env e s) (upload_start cfg env) events"


text \<open>The invariant of the write counter, for the proofs.\<close>

definition log_inv :: "batch \<Rightarrow> bool" where
  "log_inv s \<longleftrightarrow>
     mset (enqueued s) = mset (written s) + mset (pending s) + mset (failed s)
   \<and> int (length (pending s)) + int (length (failed s)) \<le> writeCount s
   \<and> (phase s = Closing \<or> phase s = Closed \<longrightarrow> writeCount s = 0)"

text \<open>
  A batch on which the model is evaluated: an error file, the existence check bypassed,
  only \<open>png\<close> and \<open>jpg\<close> allowed; \<open>img/good.png\<close> starts with the PNG magic number, every
  other file with zero bytes.
\<close>

definition exampleConfig :: config where
  "exampleConfig =
     \<lparr>cloudName = ''demo'', imgDir = ''img/'', errorFilename = Some ''errors.txt'',
      lineSep = '';'', ignoreFileExistCheck = True, allowedFileTypes = [''png'', ''jpg'']\<rparr>"

definition exampleWorld :: world where
  "exampleWorld =
     \<lparr>readHeader = (\<lambda>p n. if p = ''img/good.png'' then Inr ''89504e47'' else Inr ''00000000''),
      headOk = (\<lambda>url. False), openResult = Inr ()\<rparr>"

section \<open>Theorems\<close>

lemma sort_cong_mset:
  fixes xs ys :: "'a::linorder list"
  assumes "mset xs = mset ys"
  shows "sort xs = sort ys"
proof (rule properties_for_sort)
  show "mset (sort ys) = mset xs" using assms by simp
  show "sorted (sort ys)" by simp
qed

text \<open>
  C2.  The coordinator's classification of a terminal error: a \<open>FileOpenError\<close> is never
  fatal; a \<open>ServerResponseError\<close> is fatal exactly when its HTTP status is none of 400, 404
  and 409; a \<open>FileUploadError\<close> and every error of another kind is fatal.
\<close>

theorem isCriticalError_classification:
  "\<not> isCriticalError (FileOpenError message pathname)
   \<and> isCriticalError (ServerResponseError message pathname httpCode)
       = (httpCode \<noteq> 400 \<and> httpCode \<noteq> 404 \<and> httpCode \<noteq> 409)
   \<and> isCriticalError (FileUploadError message pathname)
   \<and> isCriticalError (TypeError message)
   \<and> isCriticalError (ReferenceError message)
   \<and> isCriticalError (SystemError message)"
  by (simp add: BAD_REQUEST_def NOT_FOUND_def CONFLICT_def)

text \<open>
  C9.  The signature is a function of the secret and of the key/value pairs alone: two
  parameter objects holding the same pairs, enumerated in any order, give the same token.
\<close>

theorem generateSignature_order_independent:
  assumes "mset ps = mset qs"
  shows "generateSignature sha256 apiSecret ps = generateSignature sha256 apiSecret qs"
proof -
  let ?keep = "\<lambda>p::string \<times> jsval. length (fst p @ '','' @ joinElem (snd p)) > 0"
  let ?pair = "\<lambda>(k, v). k @ ''='' @ join '','' [joinElem v]"
  have "mset (filter ?keep ps) = mset (filter ?keep qs)"
    using assms by (simp add: mset_filter)
  then have "mset (map ?pair (filter ?keep ps)) = mset (map ?pair (filter ?keep qs))"
    by (simp add: mset_map)
  then have "sort (map ?pair (filter ?keep ps)) = sort (map ?pair (filter ?keep qs))"
    by (rule sort_cong_mset)
  then show ?thesis
    by (simp only: generateSignature_def paramsToSign_def)
qed

theorem generateSignature_order_independent_witness:
  "mset [(''timestamp'', JNum 1700000000), (''folder'', JStr ''pets'')]
     = mset [(''folder'', JStr ''pets''), (''timestamp'', JNum 1700000000)]
   \<and> generateSignature id ''s3cret''
       [(''timestamp'', JNum 1700000000), (''folder'', JStr ''pets'')]
     = generateSignature id ''s3cret''
       [(''folder'', JStr ''pets''), (''timestamp'', JNum 1700000000)]"
proof -
  have h: "mset [(''timestamp'', JNum 1700000000), (''folder'', JStr ''pets'')]
     = mset [(''folder'', JStr ''pets''), (''timestamp'', JNum 1700000000)]"
    by simp
  show ?thesis
    using h generateSignature_order_independent [OF h, of id "''s3cret''"] by simp
qed

lemma chunk_run:
  "stat_free es \<Longrightarrow>
     fileSize (foldl (\<lambda>s e. on_event url e s) s es) = fileSize s
   \<and> end' (foldl (\<lambda>s e. on_event url e s) s es) = end' s + sum_list (map int (chunk_lengths es))
   \<and> requests (foldl (\<lambda>s e. on_event url e s) s es)
       = requests s @ new_requests (fileSize s) (end' s) (chunk_lengths es)"
proof (induction es arbitrary: s)
  case Nil
  then show ?case by simp
next
  case (Cons e es)
  show ?case
  proof (cases e)
    case (OnOpenStat n)
    with Cons.prems show ?thesis by simp
  next
    case (OnError m)
    with Cons.prems have sf: "stat_free es" by simp
    show ?thesis
      using Cons.IH [OF sf, of "on_event url e s"] OnError
      by (simp add: settle_def split: option.splits)
  next
    case (OnData n)
    with Cons.prems have sf: "stat_free es" by simp
    show ?thesis
      using Cons.IH [OF sf, of "on_event url e s"] OnData
      by (simp add: Let_def)
  next
    case (PostResolved r)
    with Cons.prems have sf: "stat_free es" by simp
    show ?thesis
      using Cons.IH [OF sf, of "on_event url e s"] PostResolved
      by (simp add: settle_def Let_def split: option.splits)
  next
    case (PostRejected m st)
    with Cons.prems have sf: "stat_free es" by simp
    show ?thesis
      using Cons.IH [OF sf, of "on_event url e s"] PostRejected
      by (simp add: settle_def Let_def split: option.splits)
  qed
qed

lemma length_new_requests: "length (new_requests fsize e ls) = length ls"
  by (induction ls arbitrary: e) simp_all

lemma offset_0: "offset ls 0 = 0"
  by (simp add: offset_def)

lemma offset_Cons_Suc: "offset (l # ls) (Suc i) = int l + offset ls i"
  by (simp add: offset_def)

lemma offset_Suc: "i < length ls \<Longrightarrow> offset ls (Suc i) = offset ls i + int (ls ! i)"
  by (simp add: offset_def take_Suc_conv_app_nth)

lemma offset_all: "offset ls (length ls) = sum_list (map int ls)"
  by (simp add: offset_def)

lemma offset_mono: "i \<le> j \<Longrightarrow> offset ls i \<le> offset ls j"
proof (induction j)
  case 0
  then show ?case by simp
next
  case (Suc j)
  show ?case
  proof (cases "i = Suc j")
    case True
    then show ?thesis by simp
  next
    case False
    with Suc have le: "offset ls i \<le> offset ls j" by simp
    have "offset ls j \<le> offset ls (Suc j)"
    proof (cases "j < length ls")
      case True
      then show ?thesis by (simp add: offset_Suc)
    next
      case False
      then show ?thesis by (simp add: offset_def)
    qed
    with le show ?thesis by simp
  qed
qed

lemma nth_new_requests:
  "i < length ls \<Longrightarrow>
     new_requests fsize e ls ! i =
       \<lparr>range_start = e + offset ls i, range_end = e + offset ls (Suc i),
        content_range = byteHeaderRange (e + offset ls i) (e + offset ls (Suc i)) fsize\<rparr>"
proof (induction ls arbitrary: e i)
  case Nil
  then show ?case by simp
next
  case (Cons l ls)
  show ?case
  proof (cases i)
    case 0
    then show ?thesis by (simp add: offset_def)
  next
    case (Suc j)
    with Cons.prems have "j < length ls" by simp
    from Cons.IH [OF this, of "e + int l"] Suc show ?thesis
      by (simp add: offset_Cons_Suc add.assoc)
  qed
qed

lemma cover_offsets: "k \<le> length ls \<Longrightarrow> (\<Union>i<k. {offset ls i ..< offset ls (Suc i)}) = {0 ..< offset ls k}"
proof (induction k)
  case 0
  then show ?case by (simp add: offset_0)
next
  case (Suc k)
  then have IH: "(\<Union>i<k. {offset ls i ..< offset ls (Suc i)}) = {0 ..< offset ls k}" by simp
  have m: "offset ls k \<le> offset ls (Suc k)" by (rule offset_mono) simp
  have z: "0 \<le> offset ls k" using offset_mono [of 0 k ls] by (simp add: offset_0)
  have "(\<Union>i<Suc k. {offset ls i ..< offset ls (Suc i)})
      = (\<Union>i<k. {offset ls i ..< offset ls (Suc i)}) \<union> {offset ls k ..< offset ls (Suc k)}"
    by (simp add: lessThan_Suc Un_commute)
  also have "\<dots> = {0 ..< offset ls k} \<union> {offset ls k ..< offset ls (Suc k)}"
    by (simp only: IH)
  also have "\<dots> = {0 ..< offset ls (Suc k)}"
    using m z by auto
  finally show ?case .
qed

lemma disjoint_offsets:
  assumes "i < j"
  shows "{offset ls i ..< offset ls (Suc i)} \<inter> {offset ls j ..< offset ls (Suc j)} = {}"
proof -
  have "offset ls (Suc i) \<le> offset ls j" using assms by (intro offset_mono) simp
  then show ?thesis by auto
qed

text \<open>
  The byte ranges when the awaited \<open>stat\<close> answers before the first \<open>data\<close> event and the
  stream delivers the file in \<open>k\<close> chunks whose lengths add up to \<open>totalSize\<close>: exactly \<open>k\<close>
  requests, the first starting at 0, every other where the one before ended, the last
  ending at \<open>totalSize\<close>, pairwise disjoint with union \<open>[0, totalSize)\<close>, each with the header
  \<open>bytes start-(end-1)/totalSize\<close>.  Nothing in \<open>chunkUpload\<close> makes the \<open>stat\<close> answer
  first.
\<close>

lemma byte_ranges_when_size_first:
  assumes known: "stat_free events"
    and whole: "sum_list (map int (chunk_lengths events)) = totalSize"
  shows "(let rs = requests (chunkUpload url (OnOpenStat totalSize # events));
              k = length (chunk_lengths events)
          in length rs = k
           \<and> (\<forall>i<k. range_start (rs ! i) = (if i = 0 then 0 else range_end (rs ! (i - 1))))
           \<and> (\<forall>i<k. range_end (rs ! i) = range_start (rs ! i) + int (chunk_lengths events ! i))
           \<and> (\<forall>i<k. content_range (rs ! i) =
                 ''bytes '' @ numToString (range_start (rs ! i)) @ ''-''
                   @ numToString (range_end (rs ! i) - 1) @ ''/'' @ numToString totalSize)
           \<and> (0 < k \<longrightarrow> range_end (rs ! (k - 1)) = totalSize)
           \<and> (\<Union>i<k. {range_start (rs ! i) ..< range_end (rs ! i)}) = {0 ..< totalSize}
           \<and> (\<forall>i<k. \<forall>j<k. i \<noteq> j \<longrightarrow>
                 {range_start (rs ! i) ..< range_end (rs ! i)}
                   \<inter> {range_start (rs ! j) ..< range_end (rs ! j)} = {}))"
proof -
  let ?ls = "chunk_lengths events"
  let ?rs = "requests (chunkUpload url (OnOpenStat totalSize # events))"
  let ?k = "length ?ls"
  have rs: "?rs = new_requests totalSize 0 ?ls"
    using chunk_run [OF known, of url
        "\<lparr>start = 0, end' = 0, fileSize = totalSize, requests = [], inflight = 0, settled = None\<rparr>"]
    by (simp add: chunkUpload_def)
  have len: "length ?rs = ?k" by (simp add: rs length_new_requests)
  have st: "range_start (?rs ! i) = offset ?ls i" if "i < ?k" for i
    using that by (simp add: rs nth_new_requests)
  have en: "range_end (?rs ! i) = offset ?ls (Suc i)" if "i < ?k" for i
    using that by (simp add: rs nth_new_requests)
  have hd: "content_range (?rs ! i) =
      byteHeaderRange (offset ?ls i) (offset ?ls (Suc i)) totalSize" if "i < ?k" for i
    using that by (simp add: rs nth_new_requests)
  have c1: "\<forall>i<?k. range_start (?rs ! i) = (if i = 0 then 0 else range_end (?rs ! (i - 1)))"
  proof (intro allI impI)
    fix i assume i: "i < ?k"
    show "range_start (?rs ! i) = (if i = 0 then 0 else range_end (?rs ! (i - 1)))"
    proof (cases i)
      case 0
      with i show ?thesis by (simp add: st offset_0)
    next
      case (Suc j)
      with i have "j < ?k" by simp
      with i Suc show ?thesis by (simp add: st en)
    qed
  qed
  have c2: "\<forall>i<?k. range_end (?rs ! i) = range_start (?rs ! i) + int (?ls ! i)"
    by (simp add: st en offset_Suc)
  have c3: "\<forall>i<?k. content_range (?rs ! i) =
      ''bytes '' @ numToString (range_start (?rs ! i)) @ ''-''
        @ numToString (range_end (?rs ! i) - 1) @ ''/'' @ numToString totalSize"
    by (simp add: st en hd byteHeaderRange_def)
  have c4: "0 < ?k \<longrightarrow> range_end (?rs ! (?k - 1)) = totalSize"
  proof
    assume "0 < ?k"
    then have "range_end (?rs ! (?k - 1)) = offset ?ls ?k" by (simp add: en)
    then show "range_end (?rs ! (?k - 1)) = totalSize" by (simp add: offset_all whole)
  qed
  have "(\<Union>i<?k. {range_start (?rs ! i) ..< range_end (?rs ! i)})
      = (\<Union>i<?k. {offset ?ls i ..< offset ?ls (Suc i)})"
    by (simp add: st en)
  also have "\<dots> = {0 ..< offset ?ls ?k}" by (rule cover_offsets) simp
  finally have c5: "(\<Union>i<?k. {range_start (?rs ! i) ..< range_end (?rs ! i)}) = {0 ..< totalSize}"
    by (simp add: offset_all whole)
  have c6: "\<forall>i<?k. \<forall>j<?k. i \<noteq> j \<longrightarrow>
      {range_start (?rs ! i) ..< range_end (?rs ! i)}
        \<inter> {range_start (?rs ! j) ..< range_end (?rs ! j)} = {}"
  proof (intro allI impI)
    fix i j assume i: "i < ?k" and j: "j < ?k" and ne: "i \<noteq> j"
    from ne consider "i < j" | "j < i" by arith
    then show "{range_start (?rs ! i) ..< range_end (?rs ! i)}
        \<inter> {range_start (?rs ! j) ..< range_end (?rs ! j)} = {}"
    proof cases
      case 1
      from disjoint_offsets [OF 1, of ?ls] i j show ?thesis by (simp add: st en)
    next
      case 2
      from disjoint_offsets [OF 2, of ?ls] i j show ?thesis by (simp add: st en Int_commute)
    qed
  qed
  from len c1 c2 c3 c4 c5 c6 show ?thesis
    unfolding Let_def by blast
qed

lemma byte_ranges_when_size_first_example:
  "stat_free [OnData 5, OnData 5, OnData 2]
   \<and> sum_list (map int (chunk_lengths [OnData 5, OnData 5, OnData 2])) = 12
   \<and> length (requests (chunkUpload ''a.png'' [OnOpenStat 12, OnData 5, OnData 5, OnData 2])) = 3
   \<and> range_end (requests (chunkUpload ''a.png'' [OnOpenStat 12, OnData 5, OnData 5, OnData 2]) ! 2)
       = 12"
proof -
  have h1: "stat_free [OnData 5, OnData 5, OnData 2]" by simp
  have h2: "sum_list (map int (chunk_lengths [OnData 5, OnData 5, OnData 2])) = 12" by simp
  show ?thesis
    using h1 h2 byte_ranges_when_size_first [OF h1 h2, of "''a.png''"]
    by (simp add: Let_def)
qed

text \<open>
  C1.  Evaluation at a file of 12 bytes whose first \<open>data\<close> event comes before the awaited
  \<open>stat\<close> of the \<open>open\<close> handler has answered: \<open>fileSize\<close> is still 0 when the header is
  built, so the request for the bytes 0 to 11 is sent with \<open>bytes 0-11/0\<close>.  For the same
  file read in three chunks, with the answer of \<open>stat\<close> after the first, the offsets are
  contiguous from 0 to 12 but the first header ends in \<open>/0\<close>.
\<close>

theorem chunkUpload_header_before_stat:
  "map content_range (requests (chunkUpload ''img/a.png'' [OnData 12, OnOpenStat 12]))
     = [''bytes 0-11/0'']
   \<and> map range_start (requests (chunkUpload ''img/a.png'' [OnData 12, OnOpenStat 12])) = [0]
   \<and> map range_end (requests (chunkUpload ''img/a.png'' [OnData 12, OnOpenStat 12])) = [12]
   \<and> map content_range
         (requests (chunkUpload ''img/a.png'' [OnData 5, OnOpenStat 12, OnData 5, OnData 2]))
     = [''bytes 0-4/0'', ''bytes 5-9/12'', ''bytes 10-11/12'']"
  by code_simp

lemma quiet_run:
  assumes "inflight s = 0" and "settled s = None" and "requests s = []"
  shows "inflight (foldl (\<lambda>s e. on_event url e s) s
            (filter (\<lambda>e. \<not> delivers e) events)) = 0
       \<and> settled (foldl (\<lambda>s e. on_event url e s) s
            (filter (\<lambda>e. \<not> delivers e) events)) = None
       \<and> requests (foldl (\<lambda>s e. on_event url e s) s
            (filter (\<lambda>e. \<not> delivers e) events)) = []"
  using assms
proof (induction events arbitrary: s)
  case Nil
  then show ?case by simp
next
  case (Cons e events)
  show ?case
  proof (cases "delivers e")
    case True
    with Cons show ?thesis by simp
  next
    case False
    have "inflight (on_event url e s) = 0 \<and> settled (on_event url e s) = None
        \<and> requests (on_event url e s) = []"
      using False Cons.prems by (cases e) simp_all
    with Cons.IH [of "on_event url e s"] False show ?thesis by simp
  qed
qed

text \<open>
  C6.  Evaluation at a file of zero bytes, whose stream opens and ends without a \<open>data\<close>
  event: the promise of \<open>chunkUpload\<close> is neither resolved nor rejected.  It stays so under
  every further event that is no \<open>data\<close> and no \<open>error\<close> event of the stream.
\<close>

theorem chunkUpload_empty_file_never_settles:
  "settled (chunkUpload ''img/empty.txt'' [OnOpenStat 0]) = None
   \<and> requests (chunkUpload ''img/empty.txt'' [OnOpenStat 0]) = []
   \<and> settled (chunkUpload url (filter (\<lambda>e. \<not> delivers e) events)) = None"
proof -
  have a: "settled (chunkUpload ''img/empty.txt'' [OnOpenStat 0]) = None
      \<and> requests (chunkUpload ''img/empty.txt'' [OnOpenStat 0]) = []"
    by (simp add: chunkUpload_def)
  have b: "settled (chunkUpload url (filter (\<lambda>e. \<not> delivers e) events)) = None"
    unfolding chunkUpload_def
    using quiet_run [of "\<lparr>start = 0, end' = 0, fileSize = 0, requests = [], inflight = 0,
        settled = None\<rparr>" url events]
    by simp
  from a b show ?thesis by blast
qed














lemma mset_without_nth:
  assumes "i < length xs"
  shows "add_mset (xs ! i) (mset (take i xs @ drop (Suc i) xs)) = mset xs"
proof -
  from id_take_nth_drop [OF assms]
  have "mset xs = mset (take i xs @ xs ! i # drop (Suc i) xs)" by (rule arg_cong)
  then show ?thesis by simp
qed

lemma length_without_nth:
  "i < length xs \<Longrightarrow> int (length (take i xs @ drop (Suc i) xs)) = int (length xs) - 1"
  by (simp add: min_def)

lemma emit_notification_inv:
  assumes "log_inv s" and "n \<noteq> END_WRITE"
  shows "log_inv (emit n s) \<and> phase (emit n s) = phase s"
  using assms by (simp add: emit_def log_inv_def Let_def)

lemma logError_inv:
  assumes "log_inv s" and "phase s \<noteq> Closing" and "phase s \<noteq> Closed"
  shows "log_inv (snd (logError cfg msg s)) \<and> phase (snd (logError cfg msg s)) = phase s"
  using assms by (auto simp: logError_def log_inv_def Let_def split: option.splits)

lemma filter_predicate_inv:
  assumes inv: "log_inv s" and p1: "phase s \<noteq> Closing" and p2: "phase s \<noteq> Closed"
  shows "log_inv (snd (filter_predicate cfg env f s))
       \<and> phase (snd (filter_predicate cfg env f s)) = phase s"
proof -
  have e: "log_inv (emit (UPLOAD_ERROR p d) s) \<and> phase (emit (UPLOAD_ERROR p d) s) = phase s" for p d
    using emit_notification_inv [OF inv, of "UPLOAD_ERROR p d"] by simp
  have l: "log_inv (snd (logError cfg msg (emit (UPLOAD_ERROR p d) s)))
         \<and> phase (snd (logError cfg msg (emit (UPLOAD_ERROR p d) s))) = phase s" for p d msg
    using logError_inv [of "emit (UPLOAD_ERROR p d) s" cfg msg] e [of p d] p1 p2 by simp
  show ?thesis
  proof (cases "isValidImage (allowedFileTypes cfg) (readHeader env) (imgDir cfg @ f)")
    case (Inl error)
    obtain a s2 where ls:
      "logError cfg (toString error @ lineSep cfg)
         (emit (UPLOAD_ERROR (imgDir cfg @ f) (Message (toString error))) s) = (a, s2)"
      by fastforce
    from l [of "toString error @ lineSep cfg" "imgDir cfg @ f" "Message (toString error)"] ls
    have "log_inv s2 \<and> phase s2 = phase s" by simp
    with Inl ls show ?thesis
      by (simp add: filter_predicate_def Let_def split: sum.splits)
  next
    case (Inr imgRes)
    show ?thesis
    proof (cases "imgRes = INVALID")
      case True
      obtain a s2 where ls:
        "logError cfg
           ((''Failed to upload \"'' @ (imgDir cfg @ f) @ ''\": file is invalid.'') @ lineSep cfg)
           (emit (UPLOAD_ERROR (imgDir cfg @ f)
              (Message (''Failed to upload \"'' @ (imgDir cfg @ f) @ ''\": file is invalid.''))) s)
         = (a, s2)"
        by fastforce
      from l [of "(''Failed to upload \"'' @ (imgDir cfg @ f) @ ''\": file is invalid.'') @ lineSep cfg"
          "imgDir cfg @ f"
          "Message (''Failed to upload \"'' @ (imgDir cfg @ f) @ ''\": file is invalid.'')"] ls
      have "log_inv s2 \<and> phase s2 = phase s" by simp
      with Inr True ls show ?thesis
        by (simp add: filter_predicate_def Let_def split: sum.splits)
    next
      case False
      with Inr inv show ?thesis
        by (simp add: filter_predicate_def Let_def apiOptions_def split: sum.splits)
    qed
  qed
qed

lemma callback_inv:
  assumes inv: "log_inv s" and p1: "phase s \<noteq> Closing" and p2: "phase s \<noteq> Closed"
  shows "log_inv (snd (callback cfg fileURL response error s))
       \<and> phase (snd (callback cfg fileURL response error s)) = phase s"
proof (cases error)
  case None
  then show ?thesis
    using emit_notification_inv [OF inv, of "UPLOAD_SUCCESS fileURL response"]
    by (simp add: callback_def)
next
  case (Some err)
  have a: "log_inv (s\<lparr>controller_aborted := True\<rparr>)" using inv by (simp add: log_inv_def)
  have e1: "log_inv (emit (UPLOAD_CRITICAL fileURL (ErrorObject err)) (s\<lparr>controller_aborted := True\<rparr>))
      \<and> phase (emit (UPLOAD_CRITICAL fileURL (ErrorObject err)) (s\<lparr>controller_aborted := True\<rparr>)) = phase s"
    using emit_notification_inv [OF a, of "UPLOAD_CRITICAL fileURL (ErrorObject err)"] by simp
  have e2: "log_inv (emit (UPLOAD_ERROR fileURL (ErrorObject err)) s)
      \<and> phase (emit (UPLOAD_ERROR fileURL (ErrorObject err)) s) = phase s"
    using emit_notification_inv [OF inv, of "UPLOAD_ERROR fileURL (ErrorObject err)"] by simp
  have e3: "log_inv (emit (UPLOAD_SUCCESS fileURL response) s)
      \<and> phase (emit (UPLOAD_SUCCESS fileURL response) s) = phase s"
    using emit_notification_inv [OF inv, of "UPLOAD_SUCCESS fileURL response"] by simp
  show ?thesis
    using Some e3
      logError_inv [of "emit (UPLOAD_CRITICAL fileURL (ErrorObject err)) (s\<lparr>controller_aborted := True\<rparr>)" cfg]
      logError_inv [of "emit (UPLOAD_ERROR fileURL (ErrorObject err)) s" cfg]
      e1 e2 p1 p2
    by (simp add: callback_def)
qed

lemma appendFulfilled_inv:
  assumes "log_inv s"
  shows "log_inv (appendFulfilled i s)"
proof (cases "i < length (pending s)")
  case False
  with assms show ?thesis by (simp add: appendFulfilled_def)
next
  case True
  from assms have le: "int (length (pending s)) + int (length (failed s)) \<le> writeCount s"
    and cl: "phase s = Closing \<or> phase s = Closed \<longrightarrow> writeCount s = 0"
    by (simp_all add: log_inv_def)
  from True have "1 \<le> int (length (pending s))" by linarith
  with le have wc: "0 < writeCount s" by linarith
  with cl have ph: "phase s \<noteq> Closing" "phase s \<noteq> Closed" by auto
  from mset_without_nth [OF True] assms
  have m: "mset (enqueued s)
      = mset (written s @ [pending s ! i])
        + mset (take i (pending s) @ drop (Suc i) (pending s)) + mset (failed s)"
    by (simp add: log_inv_def)
  from length_without_nth [OF True] assms
  have c: "int (length (take i (pending s) @ drop (Suc i) (pending s))) + int (length (failed s))
      \<le> writeCount s - 1"
    by (simp add: log_inv_def)
  show ?thesis
    using True m c ph
    unfolding appendFulfilled_def Let_def log_inv_def emit_def
    by (simp del: mset_append length_append)
qed

lemma appendRejected_inv:
  assumes "log_inv s"
  shows "log_inv (appendRejected i message s)"
proof (cases "i < length (pending s)")
  case False
  with assms show ?thesis by (simp add: appendRejected_def)
next
  case True
  from assms have le: "int (length (pending s)) + int (length (failed s)) \<le> writeCount s"
    and cl: "phase s = Closing \<or> phase s = Closed \<longrightarrow> writeCount s = 0"
    by (simp_all add: log_inv_def)
  from True have "1 \<le> int (length (pending s))" by linarith
  with le have wc: "0 < writeCount s" by linarith
  with cl have ph: "phase s \<noteq> Closing" "phase s \<noteq> Closed" by auto
  from mset_without_nth [OF True] assms
  have m: "mset (enqueued s)
      = mset (written s)
        + mset (take i (pending s) @ drop (Suc i) (pending s)) + mset (failed s @ [pending s ! i])"
    by (simp add: log_inv_def)
  from length_without_nth [OF True] assms
  have c: "int (length (take i (pending s) @ drop (Suc i) (pending s)))
        + int (length (failed s @ [pending s ! i])) \<le> writeCount s"
    by (simp add: log_inv_def)
  show ?thesis
    using True m c ph
    unfolding appendRejected_def Let_def log_inv_def
    by (simp del: mset_append length_append)
qed

lemma upload_step_inv:
  assumes inv: "log_inv s"
  shows "log_inv (upload_step cfg env e s)"
proof (cases e)
  case (PredicateRuns f)
  show ?thesis
  proof (cases "phase s")
    case Filtering
    then have p: "phase s \<noteq> Closing" "phase s \<noteq> Closed" by simp_all
    from filter_predicate_inv [OF inv p, of cfg env f] Filtering PredicateRuns
    show ?thesis
      by (auto simp: log_inv_def split: prod.splits sum.splits)
  next
    case (Threw x)
    then have p: "phase s \<noteq> Closing" "phase s \<noteq> Closed" by simp_all
    from filter_predicate_inv [OF inv p, of cfg env f] Threw PredicateRuns
    show ?thesis
      by (auto simp: log_inv_def)
  qed (use PredicateRuns inv in simp_all)
next
  case (AppendFulfilled i)
  with appendFulfilled_inv [OF inv] show ?thesis by simp
next
  case (AppendRejected i m)
  with appendRejected_inv [OF inv] show ?thesis by simp
next
  case FilterSettled
  with inv show ?thesis by (simp add: log_inv_def)
next
  case (CallbackRuns fileURL response error)
  show ?thesis
  proof (cases "phase s = Uploading")
    case True
    then have p: "phase s \<noteq> Closing" "phase s \<noteq> Closed" by simp_all
    from callback_inv [OF inv p, of cfg fileURL response error] True CallbackRuns
    show ?thesis by simp
  next
    case False
    with CallbackRuns inv show ?thesis by simp
  qed
next
  case PoolSettled
  with inv show ?thesis by (auto simp: log_inv_def)
next
  case CloseFile
  with inv show ?thesis by (auto simp: log_inv_def)
qed

lemma upload_start_inv: "log_inv (upload_start cfg env)"
  by (simp add: upload_start_def log_inv_def Let_def split: option.splits sum.splits)

lemma foldl_upload_step_inv:
  "log_inv s \<Longrightarrow> log_inv (foldl (\<lambda>s e. upload_step cfg env e s) s events)"
  by (induction events arbitrary: s) (simp_all add: upload_step_inv)

text \<open>
  C3.  In every state of a call of \<open>upload\<close> (no other call running on the same uploader),
  the messages handed to \<open>appendFile\<close> are, as a multiset, those written, those in flight
  and those whose append was rejected: none is written twice, none disappears.  Once \<open>upload\<close> is about to close the error file or has
  closed it, \<open>writeCount\<close> is 0, no append is in flight or was rejected, and the log holds
  exactly the messages that were enqueued.
\<close>

theorem log_closed_after_all_writes:
  "(let s = upload cfg env events
    in mset (enqueued s) = mset (written s) + mset (pending s) + mset (failed s)
     \<and> (phase s = Closing \<or> phase s = Closed \<longrightarrow>
          writeCount s = 0 \<and> pending s = [] \<and> failed s = []
          \<and> mset (written s) = mset (enqueued s)))"
proof -
  let ?s = "upload cfg env events"
  have inv: "log_inv ?s"
    unfolding upload_def by (rule foldl_upload_step_inv) (rule upload_start_inv)
  then have a: "mset (enqueued ?s) = mset (written ?s) + mset (pending ?s) + mset (failed ?s)"
    by (simp add: log_inv_def)
  have b: "writeCount ?s = 0 \<and> pending ?s = [] \<and> failed ?s = []
      \<and> mset (written ?s) = mset (enqueued ?s)"
    if "phase ?s = Closing \<or> phase ?s = Closed"
  proof -
    from inv that have z: "writeCount ?s = 0" by (simp add: log_inv_def)
    from inv have "int (length (pending ?s)) + int (length (failed ?s)) \<le> writeCount ?s"
      by (simp add: log_inv_def)
    with z have "length (pending ?s) = 0 \<and> length (failed ?s) = 0" by linarith
    then have "pending ?s = [] \<and> failed ?s = []" by simp
    with a z show ?thesis by simp
  qed
  from a b show ?thesis unfolding Let_def by blast
qed

theorem log_closed_after_all_writes_witness:
  "phase (upload exampleConfig exampleWorld
      [PredicateRuns ''bad.png'', AppendFulfilled 0, FilterSettled,
       CallbackRuns ''img/a.png'' None (Some (ServerResponseError ''Not Found'' ''img/a.png'' 404)),
       CallbackRuns ''img/b.png'' None (Some (FileUploadError ''timeout'' ''img/b.png'')),
       PoolSettled, AppendFulfilled 1, AppendFulfilled 0, CloseFile]) = Closed
   \<and> writeCount (upload exampleConfig exampleWorld
      [PredicateRuns ''bad.png'', AppendFulfilled 0, FilterSettled,
       CallbackRuns ''img/a.png'' None (Some (ServerResponseError ''Not Found'' ''img/a.png'' 404)),
       CallbackRuns ''img/b.png'' None (Some (FileUploadError ''timeout'' ''img/b.png'')),
       PoolSettled, AppendFulfilled 1, AppendFulfilled 0, CloseFile]) = 0
   \<and> mset (written (upload exampleConfig exampleWorld
      [PredicateRuns ''bad.png'', AppendFulfilled 0, FilterSettled,
       CallbackRuns ''img/a.png'' None (Some (ServerResponseError ''Not Found'' ''img/a.png'' 404)),
       CallbackRuns ''img/b.png'' None (Some (FileUploadError ''timeout'' ''img/b.png'')),
       PoolSettled, AppendFulfilled 1, AppendFulfilled 0, CloseFile]))
     = mset (enqueued (upload exampleConfig exampleWorld
      [PredicateRuns ''bad.png'', AppendFulfilled 0, FilterSettled,
       CallbackRuns ''img/a.png'' None (Some (ServerResponseError ''Not Found'' ''img/a.png'' 404)),
       CallbackRuns ''img/b.png'' None (Some (FileUploadError ''timeout'' ''img/b.png'')),
       PoolSettled, AppendFulfilled 1, AppendFulfilled 0, CloseFile]))"
proof -
  let ?events = "[PredicateRuns ''bad.png'', AppendFulfilled 0, FilterSettled,
       CallbackRuns ''img/a.png'' None (Some (ServerResponseError ''Not Found'' ''img/a.png'' 404)),
       CallbackRuns ''img/b.png'' None (Some (FileUploadError ''timeout'' ''img/b.png'')),
       PoolSettled, AppendFulfilled 1, AppendFulfilled 0, CloseFile]"
  have h: "phase (upload exampleConfig exampleWorld ?events) = Closed"
    by code_simp
  from h log_closed_after_all_writes [of exampleConfig exampleWorld ?events]
  show ?thesis unfolding Let_def by blast
qed

lemma isValidImage_NOT_ALLOWED:
  "isValidImage allowableTypes rd filename = Inr NOT_ALLOWED \<longleftrightarrow>
     allowableTypes \<noteq> [] \<and> getFileExtension filename \<notin> Some ` set allowableTypes"
  by (auto simp: isValidImage_def Let_def split: option.splits list.splits sum.splits)

text \<open>
  C10.  For a file whose verdict is \<open>NOT_ALLOWED\<close> the predicate returns \<open>false\<close> and changes
  nothing: no event is emitted, \<open>logError\<close> is not called, and the file is not added to the
  upload queue.  The verdict occurs only when the list of allowed types is not empty and
  does not hold the file's extension.
\<close>

theorem not_allowed_excluded_silently:
  assumes "isValidImage (allowedFileTypes cfg) (readHeader env) (imgDir cfg @ f) = Inr NOT_ALLOWED"
  shows "filter_predicate cfg env f s = (Inr False, s)
       \<and> upload_step cfg env (PredicateRuns f) s = s
       \<and> allowedFileTypes cfg \<noteq> []
       \<and> getFileExtension (imgDir cfg @ f) \<notin> Some ` set (allowedFileTypes cfg)"
proof -
  have p: "filter_predicate cfg env f s = (Inr False, s)"
    using assms by (simp add: filter_predicate_def)
  have u: "upload_step cfg env (PredicateRuns f) s = s"
    by (cases "phase s") (simp_all add: p)
  from assms have x: "allowedFileTypes cfg \<noteq> []
      \<and> getFileExtension (imgDir cfg @ f) \<notin> Some ` set (allowedFileTypes cfg)"
    using isValidImage_NOT_ALLOWED [of "allowedFileTypes cfg" "readHeader env" "imgDir cfg @ f"]
    by blast
  from p u x show ?thesis by blast
qed

theorem not_allowed_excluded_silently_witness:
  "isValidImage (allowedFileTypes exampleConfig) (readHeader exampleWorld)
     (imgDir exampleConfig @ ''notes.txt'') = Inr NOT_ALLOWED
   \<and> filter_predicate exampleConfig exampleWorld ''notes.txt'' (upload_start exampleConfig exampleWorld)
       = (Inr False, upload_start exampleConfig exampleWorld)
   \<and> upload exampleConfig exampleWorld [PredicateRuns ''notes.txt'']
       = upload exampleConfig exampleWorld []"
proof -
  have h: "isValidImage (allowedFileTypes exampleConfig) (readHeader exampleWorld)
     (imgDir exampleConfig @ ''notes.txt'') = Inr NOT_ALLOWED"
    by code_simp
  from not_allowed_excluded_silently [OF h, of "upload_start exampleConfig exampleWorld"] h
  show ?thesis by (simp add: upload_def)
qed

text \<open>
  C4.  Evaluation at a batch without an error file that holds one invalid file: the
  predicate's \<open>logError\<close> throws and \<open>upload\<close> is rejected with the \<open>TypeError\<close>.
\<close>

theorem upload_throws_for_invalid_file_without_error_file:
  "isValidImage (allowedFileTypes exampleConfig) (readHeader exampleWorld) ''img/bad.png''
     = Inr INVALID
   \<and> phase (upload (exampleConfig\<lparr>errorFilename := None\<rparr>) exampleWorld [PredicateRuns ''bad.png''])
     = Threw (TypeError ''Cannot read properties of undefined (reading 'then')'')"
  by code_simp

text \<open>
  C5.  Evaluation at a valid file when the existence check is not bypassed: the predicate
  throws the \<open>ReferenceError\<close> and \<open>upload\<close> is rejected with it; the server is not asked.
\<close>

theorem valid_file_existence_check_throws:
  "isValidImage (allowedFileTypes exampleConfig) (readHeader exampleWorld) ''img/good.png''
     = Inr VALID
   \<and> filter_predicate (exampleConfig\<lparr>ignoreFileExistCheck := False\<rparr>) exampleWorld ''good.png''
       (upload_start exampleConfig exampleWorld)
     = (Inl (ReferenceError ''apiOptions is not defined''), upload_start exampleConfig exampleWorld)
   \<and> phase (upload (exampleConfig\<lparr>ignoreFileExistCheck := False\<rparr>) exampleWorld
        [PredicateRuns ''good.png''])
     = Threw (ReferenceError ''apiOptions is not defined'')"
  by code_simp

text \<open>
  C7.  Evaluation at two failing uploads, the first with status 401: the first is reported
  as critical and aborts the controller; the second, although it failed, is reported with
  the success event and a \<open>null\<close> response.
\<close>

theorem success_emitted_for_failed_upload_after_abort:
  "emitted (upload exampleConfig exampleWorld
      [FilterSettled,
       CallbackRuns ''img/a.png'' None (Some (ServerResponseError ''Unauthorized'' ''img/a.png'' 401)),
       CallbackRuns ''img/b.png'' None (Some (FileUploadError ''canceled'' ''img/b.png''))])
   = [UPLOAD_CRITICAL ''img/a.png'' (ErrorObject (ServerResponseError ''Unauthorized'' ''img/a.png'' 401)),
      UPLOAD_SUCCESS ''img/b.png'' None]"
  by code_simp

end
